theory Spec2Isabelle
  imports
    Main
    "HOL-Library.Char_ord"
    "HOL-Library.List_Lexorder"
    "HOL-Library.Product_Lexorder"
    "HOL-Library.AList"
    "HOL-Library.Multiset"
begin

section \<open>Values of a decoded YAML document\<close>

text \<open>
  The program works on Go values of type \<^verbatim>\<open>interface{}\<close> as the YAML decoder hands
  them over: the nil interface, booleans, integers, strings, maps
  \<^verbatim>\<open>map[interface{}]interface{}\<close> and slices \<^verbatim>\<open>[]interface{}\<close>, and floating point
  numbers (\<open>float64\<close> below). An integer of any size is an \<open>int\<close>: the decoder picks the Go
  integer type from the value, so two integers of different types are different numbers,
  and the differ reports one Modification for them either way. Map keys are nil,
  booleans, integers and strings; a floating point key and a time stamp are left out of
  the model.
  \<^verbatim>\<open>normalizeValue\<close> rebuilds every map as a \<^verbatim>\<open>map[interface{}]interface{}\<close>, the
  one map type the type assertions of the code accept and the one map type of the model.

  A Go map is an association list with pairwise distinct keys (\<open>wf_val\<close> below). Go does
  not fix the order in which \<^verbatim>\<open>range\<close> visits a map; the model visits the entries in
  the order of the list, and a statement made for every list is made for every such order.
\<close>

datatype scalar = SNil | SBool bool | SInt int | SStr string

text \<open>
  A \<^verbatim>\<open>float64\<close>: not a number, an infinity (\<open>True\<close> for the negative one), or a finite
  number given by its sign (\<open>True\<close> for negative), the decimal digits \<open>m\<close> and the decimal
  exponent \<open>e\<close> that strconv prints for it: the number is \<open>m * 10 ^ e\<close>, and zero has a
  sign.
\<close>

datatype float64 = FNaN | FInf bool | FNum bool nat int

datatype val = Prim scalar | Float float64 | Map "(scalar \<times> val) list" | Slice "val list"

abbreviation nil :: val where
  "nil \<equiv> Prim SNil"

fun wf_val :: "val \<Rightarrow> bool" where
  "wf_val (Prim s) = True"
| "wf_val (Float f) = True"
| "wf_val (Map kvs) = (distinct (map fst kvs) \<and> list_all (\<lambda>kv. wf_val (snd kv)) kvs)"
| "wf_val (Slice xs) = list_all wf_val xs"

text \<open>A run-time panic of the Go program is a value of this type.\<close>

datatype panic = NilPointerDereference | TypeAssertion

text \<open>The Go loops call functions that may panic: the first panic ends the loop.\<close>

fun mapE :: "('a \<Rightarrow> panic + 'b) \<Rightarrow> 'a list \<Rightarrow> panic + 'b list" where
  "mapE f [] = Inr []"
| "mapE f (x # xs) =
     (case f x of
        Inl e \<Rightarrow> Inl e
      | Inr y \<Rightarrow> (case mapE f xs of Inl e \<Rightarrow> Inl e | Inr ys \<Rightarrow> Inr (y # ys)))"

subsection \<open>reflect.TypeOf\<close>

datatype gotype = TBool | TInt | TString | TFloat64 | TMap | TSlice

text \<open>\<^verbatim>\<open>reflect.TypeOf(nil)\<close> is the nil Type: \<open>None\<close>.\<close>

fun typeOf :: "val \<Rightarrow> gotype option" where
  "typeOf (Prim SNil) = None"
| "typeOf (Prim (SBool b)) = Some TBool"
| "typeOf (Prim (SInt i)) = Some TInt"
| "typeOf (Prim (SStr s)) = Some TString"
| "typeOf (Float f) = Some TFloat64"
| "typeOf (Map kvs) = Some TMap"
| "typeOf (Slice xs) = Some TSlice"

subsection \<open>strconv.Itoa and fmt.Sprintf("%v", x)\<close>

definition digit :: "nat \<Rightarrow> char" where
  "digit d = char_of (48 + d)"

function itoa_nat :: "nat \<Rightarrow> string" where
  "itoa_nat n = (if n < 10 then [digit n] else itoa_nat (n div 10) @ [digit (n mod 10)])"
  by pat_completeness auto
termination
  by (relation "measure id") auto

declare itoa_nat.simps [simp del]

definition itoa :: "int \<Rightarrow> string" where
  "itoa i = (if i < 0 then CHR ''-'' # itoa_nat (nat (- i)) else itoa_nat (nat i))"

fun joinWith :: "string \<Rightarrow> string list \<Rightarrow> string" where
  "joinWith sep [] = []"
| "joinWith sep [s] = s"
| "joinWith sep (s # t # ss) = s @ sep @ joinWith sep (t # ss)"

fun sprintScalar :: "scalar \<Rightarrow> string" where
  "sprintScalar SNil = ''<nil>''"
| "sprintScalar (SBool b) = (if b then ''true'' else ''false'')"
| "sprintScalar (SInt i) = itoa i"
| "sprintScalar (SStr s) = s"

text \<open>
  A floating point number is printed in the format \<^verbatim>\<open>%g\<close> with the shortest digits:
  with an exponent when the decimal exponent of the first digit is below -4 or at least
  6, as a decimal fraction otherwise. \<open>dropZeros\<close> removes the zeros at the end of the
  digits.
\<close>

function dropZeros :: "nat \<Rightarrow> int \<Rightarrow> nat \<times> int" where
  "dropZeros m e = (if m > 0 \<and> m mod 10 = 0 then dropZeros (m div 10) (e + 1) else (m, e))"
  by pat_completeness auto
termination
  by (relation "measure fst") auto

declare dropZeros.simps [simp del]

definition digitAt :: "string \<Rightarrow> int \<Rightarrow> char" where
  "digitAt ds j = (if 0 \<le> j \<and> j < int (length ds) then ds ! nat j else CHR ''0'')"

definition fmtE :: "string \<Rightarrow> int \<Rightarrow> string" where
  "fmtE ds dp =
     (let exp10 = (if ds = [] then 0 else dp - 1) in
      [digitAt ds 0] @
      (if length ds > 1 then CHR ''.'' # tl ds else []) @
      ''e'' @ (if exp10 < 0 then ''-'' else ''+'') @
      (if \<bar>exp10\<bar> < 10 then ''0'' else []) @ itoa_nat (nat \<bar>exp10\<bar>))"

definition fmtF :: "string \<Rightarrow> int \<Rightarrow> string" where
  "fmtF ds dp =
     (if dp > 0 then map (\<lambda>j. digitAt ds (int j)) [0 ..< nat dp] else ''0'') @
     (if int (length ds) > dp then
        CHR ''.'' # map (\<lambda>i. digitAt ds (dp + int i)) [0 ..< nat (int (length ds) - dp)]
      else [])"

fun sprintFloat :: "float64 \<Rightarrow> string" where
  "sprintFloat FNaN = ''NaN''"
| "sprintFloat (FInf neg) = (if neg then ''-Inf'' else ''+Inf'')"
| "sprintFloat (FNum neg m e) =
     (let ds = (if fst (dropZeros m e) = 0 then [] else itoa_nat (fst (dropZeros m e)));
          dp = (if fst (dropZeros m e) = 0 then 0 else int (length ds) + snd (dropZeros m e))
      in (if neg then ''-'' else []) @
         (if dp - 1 < - 4 \<or> dp - 1 \<ge> 6 then fmtE ds dp else fmtF ds dp))"

text \<open>
  The fmt package prints a map with its keys sorted: nil first, integers and strings by
  \<open><\<close>, false before true. Keys of different dynamic types are ordered by the addresses
  of their type descriptors, which the build of the program fixes; the order taken here
  is nil, string, int, bool.
\<close>

fun keyOrder :: "scalar \<Rightarrow> nat \<times> int \<times> string" where
  "keyOrder SNil = (0, 0, [])"
| "keyOrder (SStr s) = (1, 0, s)"
| "keyOrder (SInt i) = (2, i, [])"
| "keyOrder (SBool b) = (3, (if b then 1 else 0), [])"

fun sprintv :: "val \<Rightarrow> string" where
  "sprintv (Prim s) = sprintScalar s"
| "sprintv (Float f) = sprintFloat f"
| "sprintv (Map kvs) =
     ''map['' @
     joinWith '' ''
       (map snd (sort_key fst
          (map (\<lambda>kv. (keyOrder (fst kv), sprintScalar (fst kv) @ '':'' @ sprintv (snd kv))) kvs))) @
     '']''"
| "sprintv (Slice xs) = ''['' @ joinWith '' '' (map sprintv xs) @ '']''"

subsection \<open>sort.Slice\<close>

text \<open>
  \<^verbatim>\<open>sort.Slice(xs, func(i, j) bool { return key(xs[i]) < key(xs[j]) })\<close> with keys that are
  Go strings, compared byte by byte. Go does not say in which order it leaves elements with
  equal keys; a short slice it sorts by insertion, which keeps them in their order, and so
  does the model (\<open>sort_key\<close>) for every slice.
\<close>

definition sortSlice :: "('a \<Rightarrow> string) \<Rightarrow> 'a list \<Rightarrow> 'a list" where
  "sortSlice key xs = sort_key key xs"

section \<open>isSliceOfDictsWithIds\<close>

text \<open>
  The \<^verbatim>\<open>for _, item := range slice\<close> loop.
  \<^verbatim>\<open>reflect.TypeOf(item).Kind()\<close> dereferences the nil Type when the item is nil;
  the type assertion \<^verbatim>\<open>item.(map[interface{}]interface{})\<close> follows the test of
  the kind.
\<close>

fun isSliceOfDictsWithIds_range :: "val list \<Rightarrow> panic + bool" where
  "isSliceOfDictsWithIds_range [] = Inr False"
| "isSliceOfDictsWithIds_range (item # rest) =
     (case typeOf item of
        None \<Rightarrow> Inl NilPointerDereference
      | Some t \<Rightarrow>
          if t \<noteq> TMap then Inr False
          else (case item of
                  Map m \<Rightarrow>
                    if map_of m (SStr ''name'') \<noteq> None then Inr True
                    else if map_of m (SStr ''key'') \<noteq> None then Inr True
                    else if map_of m (SStr ''id'') \<noteq> None then Inr True
                    else isSliceOfDictsWithIds_range rest
                | _ \<Rightarrow> Inl TypeAssertion))"

definition isSliceOfDictsWithIds :: "val list \<Rightarrow> panic + bool" where
  "isSliceOfDictsWithIds slice =
     (if length slice = 0 then Inr False else isSliceOfDictsWithIds_range slice)"

section \<open>normalizeValue\<close>

lemma mapE_cong [fundef_cong]:
  "xs = ys \<Longrightarrow> (\<And>x. x \<in> set ys \<Longrightarrow> f x = g x) \<Longrightarrow> mapE f xs = mapE g ys"
  by (induction ys arbitrary: xs) (auto split: sum.splits)

text \<open>
  A map: the keys are sorted by their printed form and the normalized values are stored
  under them in a new map, in that order. A slice: the elements are normalized, and the
  result is sorted by the printed form of the elements unless it is a slice of
  dictionaries with identifiers.
\<close>

function normalizeValue :: "val \<Rightarrow> panic + val" where
  "normalizeValue (Prim s) = Inr (Prim s)"
| "normalizeValue (Map kvs) =
     (case mapE (\<lambda>kv. case normalizeValue (snd kv) of
                         Inl e \<Rightarrow> Inl e
                       | Inr v \<Rightarrow> Inr (fst kv, v))
                (sortSlice (\<lambda>kv. sprintScalar (fst kv)) kvs) of
        Inl e \<Rightarrow> Inl e
      | Inr normalized \<Rightarrow> Inr (Map normalized))"
| "normalizeValue (Slice xs) =
     (case mapE normalizeValue xs of
        Inl e \<Rightarrow> Inl e
      | Inr elements \<Rightarrow>
          (case isSliceOfDictsWithIds elements of
             Inl e \<Rightarrow> Inl e
           | Inr b \<Rightarrow>
               if \<not> b then Inr (Slice (sortSlice sprintv elements))
               else Inr (Slice elements)))"
| "normalizeValue (Float f) = Inr (Float f)"
  by pat_completeness auto
termination
proof (relation "measure size")
  show "wf (measure size)" by simp
next
  fix kvs :: "(scalar \<times> val) list" and kv
  assume "kv \<in> set (sortSlice (\<lambda>kv. sprintScalar (fst kv)) kvs)"
  then have "kv \<in> set kvs" by (simp add: sortSlice_def)
  then have "size (snd kv) < Suc (size_list (size_prod (\<lambda>_. 0) size) kvs)"
    by (induction kvs) (auto simp: less_Suc_eq)
  then show "(snd kv, Map kvs) \<in> measure size" by simp
next
  fix xs :: "val list" and x
  assume "x \<in> set xs"
  then have "size x < Suc (size_list size xs)"
    by (induction xs) (auto simp: less_Suc_eq)
  then show "(x, Slice xs) \<in> measure size" by simp
qed

section \<open>reflect.DeepEqual\<close>

text \<open>
  Go's \<^verbatim>\<open>==\<close> on two floating point numbers: a NaN equals nothing, itself included;
  the two zeros are equal; two finite numbers are equal when they are the same number.
\<close>

fun floatEq :: "float64 \<Rightarrow> float64 \<Rightarrow> bool" where
  "floatEq (FInf a) (FInf b) = (a = b)"
| "floatEq (FNum s1 m1 e1) (FNum s2 m2 e2) =
     (if m1 = 0 \<or> m2 = 0 then m1 = 0 \<and> m2 = 0
      else s1 = s2 \<and>
           int m1 * 10 ^ nat (e1 - min e1 e2) = int m2 * 10 ^ nat (e2 - min e1 e2))"
| "floatEq _ _ = False"

text \<open>
  Values of different dynamic types are never deeply equal. Two maps are deeply equal when
  they have the same number of entries and every key of the first has a deeply equal
  value in the second; two slices, when they are so element by element. The two values
  are two objects: the answer that DeepEqual gives at once for one and the same map or
  slice object is not modelled.
\<close>

fun deepEqual :: "val \<Rightarrow> val \<Rightarrow> bool" where
  "deepEqual (Prim a) (Prim b) = (a = b)"
| "deepEqual (Float a) (Float b) = floatEq a b"
| "deepEqual (Map m1) (Map m2) =
     (length m1 = length m2 \<and>
      list_all (\<lambda>kv. case map_of m2 (fst kv) of
                        None \<Rightarrow> False
                      | Some w \<Rightarrow> deepEqual (snd kv) w) m1)"
| "deepEqual (Slice xs) (Slice ys) = list_all2 deepEqual xs ys"
| "deepEqual _ _ = False"

section \<open>Changes\<close>

datatype ChangeType = Addition | Deletion | Modification

record Change =
  Type :: ChangeType
  Path :: string
  OldValue :: val
  NewValue :: val

section \<open>diffSliceOfDicts and diffValues\<close>

text \<open>
  The loop that groups the items of a slice by identifier (the same loop runs on the old
  and on the new slice). \<^verbatim>\<open>m[k] = item\<close> on a Go map overwrites the value stored
  under \<open>k\<close>, or adds the entry: \<open>AList.update\<close>.
\<close>

fun groupByIdentifier :: "val list \<Rightarrow> (string \<times> val) list \<Rightarrow> (string \<times> val) list" where
  "groupByIdentifier [] acc = acc"
| "groupByIdentifier (item # rest) acc =
     groupByIdentifier rest
       (case item of
          Map m \<Rightarrow>
            (case map_of m (SStr ''name'') of
               Some name \<Rightarrow> AList.update (sprintv name) item acc
             | None \<Rightarrow>
                 (case map_of m (SStr ''key'') of
                    Some key \<Rightarrow> AList.update (sprintv key) item acc
                  | None \<Rightarrow>
                      (case map_of m (SStr ''id'') of
                         Some ident \<Rightarrow> AList.update (sprintv ident) item acc
                       | None \<Rightarrow> acc)))
        | _ \<Rightarrow> acc)"

lemma set_update_subset: "(k, v) \<in> set (AList.update a b al) \<Longrightarrow> v = b \<or> (k, v) \<in> set al"
  by (induction al) (auto split: if_splits)

lemma groupByIdentifier_values:
  "(k, v) \<in> set (groupByIdentifier xs acc) \<Longrightarrow> v \<in> set xs \<or> (k, v) \<in> set acc"
proof (induction xs arbitrary: acc)
  case Nil
  then show ?case by simp
next
  case (Cons item rest)
  from Cons.prems Cons.IH show ?case
    by (fastforce split: val.splits option.splits dest: set_update_subset)
qed

lemma size_member_Slice: "x \<in> set xs \<Longrightarrow> size x < size (Slice xs)"
proof -
  assume "x \<in> set xs"
  then have "size x < Suc (size_list size xs)"
    by (induction xs) (auto simp: less_Suc_eq)
  then show ?thesis by simp
qed

lemma size_nth_Slice: "i < length xs \<Longrightarrow> size (xs ! i) < size (Slice xs)"
  by (simp only: size_member_Slice nth_mem)

lemma size_member_Map: "kv \<in> set kvs \<Longrightarrow> size (snd kv) < size (Map kvs)"
proof -
  assume "kv \<in> set kvs"
  then have "size (snd kv) < Suc (size_list (size_prod (\<lambda>_. 0) size) kvs)"
    by (induction kvs) (auto simp: less_Suc_eq)
  then show ?thesis by simp
qed

text \<open>
  The two functions call each other. The changes are appended in the order of the
  loops; a panic in a recursive call ends the call. The switch on the kind of the old
  value is reached with two values of the same type, neither of them nil: the branches
  that would panic there (a nil old value, a new value of another kind) are written out
  as the code has them, and are never taken.
\<close>

function diffValues :: "val \<Rightarrow> val \<Rightarrow> string \<Rightarrow> panic + Change list"
  and diffSliceOfDicts :: "val list \<Rightarrow> val list \<Rightarrow> string \<Rightarrow> panic + Change list"
where
  "diffValues oldVal newVal path =
     (if deepEqual oldVal newVal then Inr []
      else if typeOf oldVal \<noteq> typeOf newVal \<and> oldVal \<noteq> nil \<and> newVal \<noteq> nil then
        Inr [\<lparr>Type = Modification, Path = path, OldValue = oldVal, NewValue = newVal\<rparr>]
      else if oldVal = nil \<and> newVal \<noteq> nil then
        Inr [\<lparr>Type = Addition, Path = path, OldValue = nil, NewValue = newVal\<rparr>]
      else if oldVal \<noteq> nil \<and> newVal = nil then
        Inr [\<lparr>Type = Deletion, Path = path, OldValue = oldVal, NewValue = nil\<rparr>]
      else
        (case oldVal of
           Map oldMap \<Rightarrow>
             (case newVal of
                Map newMap \<Rightarrow>
                  (case mapE (\<lambda>kv.
                          case map_of newMap (fst kv) of
                            None \<Rightarrow>
                              Inr [\<lparr>Type = Deletion, Path = path @ ''.'' @ sprintScalar (fst kv),
                                    OldValue = snd kv, NewValue = nil\<rparr>]
                          | Some newValue \<Rightarrow>
                              diffValues (snd kv) newValue (path @ ''.'' @ sprintScalar (fst kv)))
                        oldMap of
                     Inl e \<Rightarrow> Inl e
                   | Inr subChanges \<Rightarrow>
                       Inr (concat subChanges @
                            map (\<lambda>kv. \<lparr>Type = Addition, Path = path @ ''.'' @ sprintScalar (fst kv),
                                       OldValue = nil, NewValue = snd kv\<rparr>)
                              (filter (\<lambda>kv. map_of oldMap (fst kv) = None) newMap)))
              | _ \<Rightarrow> Inl TypeAssertion)
         | Slice oldSlice \<Rightarrow>
             (case newVal of
                Slice newSlice \<Rightarrow>
                  (case isSliceOfDictsWithIds oldSlice of
                     Inl e \<Rightarrow> Inl e
                   | Inr oldIds \<Rightarrow>
                       (case (if oldIds then isSliceOfDictsWithIds newSlice else Inr False) of
                          Inl e \<Rightarrow> Inl e
                        | Inr bothIds \<Rightarrow>
                            if bothIds then diffSliceOfDicts oldSlice newSlice path
                            else
                              (case mapE (\<lambda>i. diffValues (oldSlice ! i) (newSlice ! i)
                                                 (path @ ''['' @ itoa (int i) @ '']''))
                                      [0 ..< min (length oldSlice) (length newSlice)] of
                                 Inl e \<Rightarrow> Inl e
                               | Inr subChanges \<Rightarrow>
                                   Inr (concat subChanges @
                                     (if length oldSlice > length newSlice then
                                        map (\<lambda>i. \<lparr>Type = Deletion,
                                                   Path = path @ ''['' @ itoa (int i) @ '']'',
                                                   OldValue = oldSlice ! i, NewValue = nil\<rparr>)
                                          [length newSlice ..< length oldSlice]
                                      else if length newSlice > length oldSlice then
                                        map (\<lambda>i. \<lparr>Type = Addition,
                                                   Path = path @ ''['' @ itoa (int i) @ '']'',
                                                   OldValue = nil, NewValue = newSlice ! i\<rparr>)
                                          [length oldSlice ..< length newSlice]
                                      else [])))))
              | _ \<Rightarrow> Inl TypeAssertion)
         | Prim s \<Rightarrow>
             (case s of
                SNil \<Rightarrow> Inl NilPointerDereference
              | _ \<Rightarrow>
                  if \<not> deepEqual oldVal newVal then
                    Inr [\<lparr>Type = Modification, Path = path, OldValue = oldVal, NewValue = newVal\<rparr>]
                  else Inr [])
         | Float f \<Rightarrow>
             if \<not> deepEqual oldVal newVal then
               Inr [\<lparr>Type = Modification, Path = path, OldValue = oldVal, NewValue = newVal\<rparr>]
             else Inr []))"
| "diffSliceOfDicts oldSlice newSlice path =
     (case mapE (\<lambda>kv.
             case map_of (groupByIdentifier newSlice []) (fst kv) of
               Some newItem \<Rightarrow> diffValues (snd kv) newItem (path @ ''['' @ fst kv @ '']'')
             | None \<Rightarrow>
                 Inr [\<lparr>Type = Deletion, Path = path @ ''['' @ fst kv @ '']'',
                       OldValue = snd kv, NewValue = nil\<rparr>])
           (groupByIdentifier oldSlice []) of
        Inl e \<Rightarrow> Inl e
      | Inr subChanges \<Rightarrow>
          Inr (concat subChanges @
               map (\<lambda>kv. \<lparr>Type = Addition, Path = path @ ''['' @ fst kv @ '']'',
                          OldValue = nil, NewValue = snd kv\<rparr>)
                 (filter (\<lambda>kv. map_of (groupByIdentifier oldSlice []) (fst kv) = None)
                    (groupByIdentifier newSlice []))))"
  by pat_completeness auto
termination
proof (relation "measure (\<lambda>a. case a of
                    Inl (oldVal, newVal, path) \<Rightarrow> 2 * size oldVal
                  | Inr (oldSlice, newSlice, path) \<Rightarrow> 2 * size (Slice oldSlice) - 1)")
  show "wf (measure (\<lambda>a. case a of
                    Inl (oldVal, newVal, path) \<Rightarrow> 2 * size oldVal
                  | Inr (oldSlice, newSlice, path) \<Rightarrow> 2 * size (Slice oldSlice) - 1))"
    by simp
next
  fix oldVal :: val and oldMap kv
  assume "oldVal = Map oldMap" and "kv \<in> set oldMap"
  then show "\<And>newVal path x y z.
       (Inl (snd kv, z, path @ ''.'' @ sprintScalar (fst kv)), Inl (oldVal, newVal, path))
       \<in> measure (\<lambda>a. case a of
                    Inl (oldVal, newVal, path) \<Rightarrow> 2 * size oldVal
                  | Inr (oldSlice, newSlice, path) \<Rightarrow> 2 * size (Slice oldSlice) - 1)"
    using size_member_Map [of kv oldMap] by simp
next
  fix oldVal :: val and oldSlice
  assume "oldVal = Slice oldSlice"
  then show "\<And>newVal newSlice path.
       (Inr (oldSlice, newSlice, path), Inl (oldVal, newVal, path))
       \<in> measure (\<lambda>a. case a of
                    Inl (oldVal, newVal, path) \<Rightarrow> 2 * size oldVal
                  | Inr (oldSlice, newSlice, path) \<Rightarrow> 2 * size (Slice oldSlice) - 1)"
    by simp
next
  fix oldVal :: val and oldSlice newSlice :: "val list" and i
  assume "oldVal = Slice oldSlice"
    and "i \<in> set [0..<min (length oldSlice) (length newSlice)]"
  then show "\<And>newVal path.
       (Inl (oldSlice ! i, newSlice ! i, path @ ''['' @ itoa (int i) @ '']''), Inl (oldVal, newVal, path))
       \<in> measure (\<lambda>a. case a of
                    Inl (oldVal, newVal, path) \<Rightarrow> 2 * size oldVal
                  | Inr (oldSlice, newSlice, path) \<Rightarrow> 2 * size (Slice oldSlice) - 1)"
    using size_nth_Slice [of i oldSlice] by simp
next
  fix oldSlice :: "val list" and kv
  assume "kv \<in> set (groupByIdentifier oldSlice [])"
  then have "snd kv \<in> set oldSlice"
    using groupByIdentifier_values [of "fst kv" "snd kv" oldSlice "[]"] by simp
  then show "\<And>newSlice path z.
       (Inl (snd kv, z, path @ ''['' @ fst kv @ '']''), Inr (oldSlice, newSlice, path))
       \<in> measure (\<lambda>a. case a of
                    Inl (oldVal, newVal, path) \<Rightarrow> 2 * size oldVal
                  | Inr (oldSlice, newSlice, path) \<Rightarrow> 2 * size (Slice oldSlice) - 1)"
    using size_member_Slice [of "snd kv" oldSlice] by simp
qed

declare diffValues.simps [simp del] diffSliceOfDicts.simps [simp del]

section \<open>generateColoredDiff\<close>

text \<open>
  The colour library and the YAML encoder are outside the repository: the three
  \<^verbatim>\<open>Sprint\<close> functions of the colours and the encoder (\<open>None\<close> when it returns an
  error) are parameters.
\<close>

record Colors =
  red :: "string \<Rightarrow> string"
  green :: "string \<Rightarrow> string"
  yellow :: "string \<Rightarrow> string"

definition newline :: char where
  "newline = CHR 0x0A"

text \<open>\<^verbatim>\<open>strings.Split(s, "\n")\<close>: at least one line, the last one after the last newline.\<close>

fun splitLines :: "string \<Rightarrow> string list" where
  "splitLines [] = [[]]"
| "splitLines (c # cs) =
     (if c = newline then [] # splitLines cs
      else (case splitLines cs of
              [] \<Rightarrow> [[c]]
            | l # ls \<Rightarrow> (c # l) # ls))"

text \<open>
  \<^verbatim>\<open>strings.TrimSpace(line) != ""\<close>: the line holds a character that is not white
  space. White space is tab, newline, vertical tab, form feed, carriage return and space,
  and the Unicode spaces U+0085, U+00A0, U+1680, U+2000 to U+200A, U+2028, U+2029, U+202F,
  U+205F and U+3000, which are two or three bytes of the string in UTF-8.
\<close>

definition isSpace :: "char \<Rightarrow> bool" where
  "isSpace c = (c \<in> set [CHR 0x09, CHR 0x0A, CHR 0x0B, CHR 0x0C, CHR 0x0D, CHR 0x20])"

definition isSpace2 :: "char \<Rightarrow> char \<Rightarrow> bool" where
  "isSpace2 c d = (c = CHR 0xC2 \<and> (d = CHR 0x85 \<or> d = CHR 0xA0))"

definition isSpace3 :: "char \<Rightarrow> char \<Rightarrow> char \<Rightarrow> bool" where
  "isSpace3 c d e =
     ((c = CHR 0xE1 \<and> d = CHR 0x9A \<and> e = CHR 0x80) \<or>
      (c = CHR 0xE2 \<and> d = CHR 0x80 \<and>
         ((CHR 0x80 \<le> e \<and> e \<le> CHR 0x8A) \<or> e = CHR 0xA8 \<or> e = CHR 0xA9 \<or> e = CHR 0xAF)) \<or>
      (c = CHR 0xE2 \<and> d = CHR 0x81 \<and> e = CHR 0x9F) \<or>
      (c = CHR 0xE3 \<and> d = CHR 0x80 \<and> e = CHR 0x80))"

fun allSpace :: "string \<Rightarrow> bool" where
  "allSpace [] = True"
| "allSpace [c] = isSpace c"
| "allSpace [c, d] = (if isSpace c then isSpace d else isSpace2 c d)"
| "allSpace (c # d # e # cs) =
     (if isSpace c then allSpace (d # e # cs)
      else if isSpace2 c d then allSpace (e # cs)
      else if isSpace3 c d e then allSpace cs
      else False)"

definition trimSuffixNewline :: "string \<Rightarrow> string" where
  "trimSuffixNewline s = (if s \<noteq> [] \<and> last s = newline then butlast s else s)"

definition formatValue :: "(val \<Rightarrow> string option) \<Rightarrow> val \<Rightarrow> string" where
  "formatValue encode v =
     (if v = nil then ''null''
      else (case v of
              Prim s \<Rightarrow> sprintv v
            | Float f \<Rightarrow> sprintv v
            | _ \<Rightarrow> (case encode v of
                       None \<Rightarrow> sprintv v
                     | Some yaml \<Rightarrow> trimSuffixNewline yaml)))"

fun prefixLines_range :: "nat \<Rightarrow> string list \<Rightarrow> string \<Rightarrow> string" where
  "prefixLines_range i [] prefix = []"
| "prefixLines_range i (line # rest) prefix =
     (if i > 0 \<or> line \<noteq> [] then
        prefix @ (if \<not> allSpace line then ''   '' else []) @ line @ [newline]
      else []) @
     prefixLines_range (Suc i) rest prefix"

definition prefixLinesComplex :: "string \<Rightarrow> string \<Rightarrow> string" where
  "prefixLinesComplex s prefix =
     (if length (splitLines s) = 0 then [] else prefixLines_range 0 (splitLines s) prefix)"

fun isStringValue :: "val \<Rightarrow> bool" where
  "isStringValue (Prim (SStr s)) = True"
| "isStringValue _ = False"

definition colorStringDiff :: "Colors \<Rightarrow> string \<Rightarrow> string \<Rightarrow> string \<times> string" where
  "colorStringDiff colors oldStr newStr = (red colors oldStr, green colors newStr)"

text \<open>The arrow between the old and the new value, in UTF-8.\<close>

definition arrow :: string where
  "arrow = [CHR 0x20, CHR 0xE2, CHR 0x86, CHR 0x92, CHR 0x20]"

text \<open>What the loop writes to the result for one change.\<close>

definition renderChange :: "Colors \<Rightarrow> (val \<Rightarrow> string option) \<Rightarrow> Change \<Rightarrow> string" where
  "renderChange colors encode change =
     (case Type change of
        Addition \<Rightarrow>
          green colors ''+ '' @ Path change @ '': '' @
          (if newline \<in> set (formatValue encode (NewValue change)) then
             [newline] @ prefixLinesComplex (formatValue encode (NewValue change)) (green colors ''+ '')
           else formatValue encode (NewValue change) @ [newline])
      | Deletion \<Rightarrow>
          red colors ''- '' @ Path change @ '': '' @
          (if newline \<in> set (formatValue encode (OldValue change)) then
             [newline] @ prefixLinesComplex (formatValue encode (OldValue change)) (red colors ''- '')
           else formatValue encode (OldValue change) @ [newline])
      | Modification \<Rightarrow>
          yellow colors ''~ '' @ Path change @ '': '' @
          (if isStringValue (OldValue change) \<and> isStringValue (NewValue change) then
             fst (colorStringDiff colors (sprintv (OldValue change)) (sprintv (NewValue change))) @
             arrow @
             snd (colorStringDiff colors (sprintv (OldValue change)) (sprintv (NewValue change))) @
             [newline]
           else
             formatValue encode (OldValue change) @ arrow @
             formatValue encode (NewValue change) @ [newline]))"

text \<open>
  The function is given the caller's slice and sorts it where it is: the model returns
  the slice as the call leaves it, together with the text.
\<close>

definition generateColoredDiff ::
  "Colors \<Rightarrow> (val \<Rightarrow> string option) \<Rightarrow> Change list \<Rightarrow> Change list \<times> string" where
  "generateColoredDiff colors encode changes =
     (if length changes = 0 then (changes, ''No changes found.'' @ [newline])
      else (sortSlice Path changes,
            concat (map (renderChange colors encode) (sortSlice Path changes))))"

text \<open>Colours switched off, and an encoder that fails: for closed examples.\<close>

definition noColor :: Colors where
  "noColor = \<lparr>red = (\<lambda>s. s), green = (\<lambda>s. s), yellow = (\<lambda>s. s)\<rparr>"

definition noEncoder :: "val \<Rightarrow> string option" where
  "noEncoder v = None"

section \<open>The identifier of a record, in the words of the specification\<close>

text \<open>
  The identifier of an element is the printed form of the value of the first of the keys
  name, key, id that the element has; an element that is not a mapping, or has none of
  the three keys, has no identifier. \<open>lastRecord xs s\<close> is the last element of \<open>xs\<close>
  whose identifier is \<open>s\<close>. Both are compared below with the loop \<open>groupByIdentifier\<close>
  of the code.
\<close>

definition specIdentifier :: "val \<Rightarrow> string option" where
  "specIdentifier v =
     (case v of
        Map m \<Rightarrow>
          (case find (\<lambda>k. map_of m (SStr k) \<noteq> None) [''name'', ''key'', ''id''] of
             None \<Rightarrow> None
           | Some k \<Rightarrow> map_option sprintv (map_of m (SStr k)))
      | _ \<Rightarrow> None)"

definition lastRecord :: "val list \<Rightarrow> string \<Rightarrow> val option" where
  "lastRecord xs s = find (\<lambda>x. specIdentifier x = Some s) (rev xs)"

text \<open>
  An identifiable-record sequence, in the words of the specification: a sequence that is
  not empty, whose elements are all mappings, at least one of which has one of the keys
  name, key, id.
\<close>

definition specRecordSequence :: "val list \<Rightarrow> bool" where
  "specRecordSequence xs =
     (xs \<noteq> [] \<and> list_all (\<lambda>x. typeOf x = Some TMap) xs \<and>
      list_ex (\<lambda>x. specIdentifier x \<noteq> None) xs)"

section \<open>Values without a NaN\<close>

fun noNaN :: "val \<Rightarrow> bool" where
  "noNaN (Prim s) = True"
| "noNaN (Float f) = (f \<noteq> FNaN)"
| "noNaN (Map kvs) = list_all (\<lambda>kv. noNaN (snd kv)) kvs"
| "noNaN (Slice xs) = list_all noNaN xs"

section \<open>Values without nil elements\<close>

text \<open>No sequence inside the value has a nil element (a nil under a map key is allowed).\<close>

fun noNilElements :: "val \<Rightarrow> bool" where
  "noNilElements (Prim s) = True"
| "noNilElements (Float f) = True"
| "noNilElements (Map kvs) = list_all (\<lambda>kv. noNilElements (snd kv)) kvs"
| "noNilElements (Slice xs) = list_all (\<lambda>x. x \<noteq> nil \<and> noNilElements x) xs"

section \<open>Facts about the definitions\<close>

lemma deepEqual_typeOf: "deepEqual a b \<Longrightarrow> typeOf a = typeOf b"
  by (induction a b rule: deepEqual.induct) auto

lemma list_all2_same: "list_all2 P xs xs = list_all (\<lambda>x. P x x) xs"
  by (induction xs) auto

lemma floatEq_refl: "f \<noteq> FNaN \<Longrightarrow> floatEq f f"
  by (cases f) simp_all

lemma deepEqual_refl: "wf_val v \<Longrightarrow> noNaN v \<Longrightarrow> deepEqual v v"
proof (induction v)
  case (Prim s)
  then show ?case by simp
next
  case (Float f)
  then show ?case by (simp add: floatEq_refl)
next
  case (Map kvs)
  have "case map_of kvs (fst kv) of None \<Rightarrow> False | Some w \<Rightarrow> deepEqual (snd kv) w"
    if "kv \<in> set kvs" for kv
  proof -
    from Map.prems have d: "distinct (map fst kvs)" by simp
    from that d have m: "map_of kvs (fst kv) = Some (snd kv)" by simp
    from Map.prems that have "wf_val (snd kv)" and "noNaN (snd kv)"
      by (simp_all add: list_all_iff)
    moreover have "snd kv \<in> Basic_BNFs.snds kv"
      by (cases kv) simp
    ultimately have "deepEqual (snd kv) (snd kv)"
      using Map.IH [OF that] by simp
    with m show ?thesis by simp
  qed
  with Map.prems show ?case by (simp add: list_all_iff)
next
  case (Slice xs)
  then show ?case by (simp add: list_all2_same list_all_iff)
qed

lemma groupByIdentifier_Cons:
  "groupByIdentifier (item # rest) acc =
     groupByIdentifier rest
       (case specIdentifier item of None \<Rightarrow> acc | Some s \<Rightarrow> AList.update s item acc)"
  by (auto simp: specIdentifier_def split: val.splits option.splits)

lemma find_append:
  "find P (xs @ ys) = (case find P xs of None \<Rightarrow> find P ys | Some x \<Rightarrow> Some x)"
  by (induction xs) auto

lemma find_snoc:
  "find P (xs @ [x]) = (case find P xs of Some y \<Rightarrow> Some y | None \<Rightarrow> if P x then Some x else None)"
  by (induction xs) auto

lemma groupByIdentifier_lookup_acc:
  "map_of (groupByIdentifier xs acc) s =
     (case lastRecord xs s of None \<Rightarrow> map_of acc s | Some x \<Rightarrow> Some x)"
proof (induction xs arbitrary: acc)
  case Nil
  then show ?case by (simp add: lastRecord_def)
next
  case (Cons item rest)
  show ?case
    unfolding groupByIdentifier_Cons Cons.IH
    by (auto simp: lastRecord_def find_snoc update_conv' split: option.splits)
qed

lemma groupByIdentifier_lookup: "map_of (groupByIdentifier xs []) s = lastRecord xs s"
  by (simp add: groupByIdentifier_lookup_acc split: option.splits)

lemma groupByIdentifier_distinct:
  "distinct (map fst acc) \<Longrightarrow> distinct (map fst (groupByIdentifier xs acc))"
proof (induction xs arbitrary: acc)
  case Nil
  then show ?case by simp
next
  case (Cons item rest)
  then show ?case
    unfolding groupByIdentifier_Cons
    by (auto simp: distinct_update split: option.splits)
qed

lemma groupByIdentifier_filter:
  "groupByIdentifier xs acc = groupByIdentifier (filter (\<lambda>x. specIdentifier x \<noteq> None) xs) acc"
proof (induction xs arbitrary: acc)
  case Nil
  then show ?case by simp
next
  case (Cons item rest)
  show ?case
  proof (cases "specIdentifier item")
    case None
    then show ?thesis using Cons.IH [of acc]
      by (simp add: groupByIdentifier_Cons del: groupByIdentifier.simps)
  next
    case (Some s)
    then show ?thesis using Cons.IH [of "AList.update s item acc"]
      by (simp add: groupByIdentifier_Cons del: groupByIdentifier.simps)
  qed
qed

lemma mapE_Inr_iff: "mapE f xs = Inr ys \<longleftrightarrow> list_all2 (\<lambda>x y. f x = Inr y) xs ys"
proof (induction xs arbitrary: ys)
  case Nil
  then show ?case by auto
next
  case (Cons x xs)
  show ?case
  proof (cases ys)
    case Nil
    then show ?thesis by (simp split: sum.splits)
  next
    case (Cons y ys')
    have "list_all2 (\<lambda>x y. f x = Inr y) xs ys' \<longleftrightarrow> mapE f xs = Inr ys'"
      by (simp add: Cons.IH)
    with Cons show ?thesis
      by (auto split: sum.splits)
  qed
qed

lemma mapE_Inl: "mapE f xs = Inl e \<Longrightarrow> \<exists>x\<in>set xs. f x = Inl e"
  by (induction xs) (auto split: sum.splits)

lemma mapE_total: "(\<And>x. x \<in> set xs \<Longrightarrow> f x = Inr (g x)) \<Longrightarrow> mapE f xs = Inr (map g xs)"
  by (induction xs) auto

lemma diffValues_deepEqual: "deepEqual v w \<Longrightarrow> diffValues v w path = Inr []"
  by (subst diffValues.simps) simp

lemma groupByIdentifier_self_lookup:
  assumes "kv \<in> set (groupByIdentifier xs [])"
  shows "map_of (groupByIdentifier xs []) (fst kv) = Some (snd kv)"
proof -
  have "distinct (map fst (groupByIdentifier xs []))"
    by (rule groupByIdentifier_distinct) simp
  with assms show ?thesis by simp
qed

lemma diffSliceOfDicts_same:
  assumes "list_all wf_val xs" and "list_all noNaN xs"
  shows "diffSliceOfDicts xs xs path = Inr []"
proof -
  let ?om = "groupByIdentifier xs []"
  let ?f = "\<lambda>kv. case map_of ?om (fst kv) of
               Some newItem \<Rightarrow> diffValues (snd kv) newItem (path @ ''['' @ fst kv @ '']'')
             | None \<Rightarrow>
                 Inr [\<lparr>Type = Deletion, Path = path @ ''['' @ fst kv @ '']'',
                       OldValue = snd kv, NewValue = nil\<rparr>]"
  have "?f kv = Inr []" if "kv \<in> set ?om" for kv
  proof -
    from that have "snd kv \<in> set xs"
      using groupByIdentifier_values [of "fst kv" "snd kv" xs "[]"] by simp
    with assms have "wf_val (snd kv)" and "noNaN (snd kv)" by (simp_all add: list_all_iff)
    then have "diffValues (snd kv) (snd kv) (path @ ''['' @ fst kv @ '']'') = Inr []"
      by (simp add: diffValues_deepEqual deepEqual_refl)
    with that show ?thesis by (simp add: groupByIdentifier_self_lookup)
  qed
  then have "mapE ?f ?om = Inr (map (\<lambda>kv. []) ?om)"
    by (rule mapE_total)
  moreover have "filter (\<lambda>kv. map_of ?om (fst kv) = None) ?om = []"
    by (simp add: filter_empty_conv groupByIdentifier_self_lookup)
  ultimately show ?thesis
    by (simp add: diffSliceOfDicts.simps)
qed

lemma diffSliceOfDicts_filter:
  "diffSliceOfDicts old new path =
     diffSliceOfDicts (filter (\<lambda>x. specIdentifier x \<noteq> None) old)
       (filter (\<lambda>x. specIdentifier x \<noteq> None) new) path"
  by (simp only: diffSliceOfDicts.simps groupByIdentifier_filter [symmetric])

lemma mapE_Inr_nth:
  "mapE f xs = Inr ys \<longleftrightarrow> length ys = length xs \<and> (\<forall>i<length xs. f (xs ! i) = Inr (ys ! i))"
  by (auto simp: mapE_Inr_iff list_all2_conv_all_nth)

subsection \<open>What isSliceOfDictsWithIds computes\<close>

text \<open>
  The answer is true exactly when some element with an identifier comes after mappings
  without one only; what follows that element is not looked at. The function panics only
  on a nil element.
\<close>

lemma specIdentifier_Map_None:
  "specIdentifier (Map m) = None \<longleftrightarrow>
     map_of m (SStr ''name'') = None \<and> map_of m (SStr ''key'') = None \<and> map_of m (SStr ''id'') = None"
  by (auto simp: specIdentifier_def split: option.splits)

lemma specIdentifier_not_Map: "typeOf x \<noteq> Some TMap \<Longrightarrow> specIdentifier x = None"
  by (cases x) (simp_all add: specIdentifier_def)

lemma isSliceOfDictsWithIds_range_Cons:
  "isSliceOfDictsWithIds_range (item # rest) =
     (if item = nil then Inl NilPointerDereference
      else if typeOf item \<noteq> Some TMap then Inr False
      else if specIdentifier item \<noteq> None then Inr True
      else isSliceOfDictsWithIds_range rest)"
proof (cases item)
  case (Prim s)
  then show ?thesis by (cases s) simp_all
next
  case (Float f)
  then show ?thesis by simp
next
  case (Map m)
  then show ?thesis
    using specIdentifier_Map_None [of m] by auto
next
  case (Slice xs)
  then show ?thesis by simp
qed

lemma isSliceOfDictsWithIds_range_True_iff:
  "isSliceOfDictsWithIds_range xs = Inr True \<longleftrightarrow>
     (\<exists>ys x zs. xs = ys @ x # zs \<and>
        (\<forall>y\<in>set ys. typeOf y = Some TMap \<and> specIdentifier y = None) \<and>
        specIdentifier x \<noteq> None)"
proof (induction xs)
  case Nil
  then show ?case by simp
next
  case (Cons item rest)
  show ?case
  proof (cases "typeOf item = Some TMap")
    case False
    then have "specIdentifier item = None" by (rule specIdentifier_not_Map)
    with False have "\<not> (\<exists>ys x zs. item # rest = ys @ x # zs \<and>
        (\<forall>y\<in>set ys. typeOf y = Some TMap \<and> specIdentifier y = None) \<and>
        specIdentifier x \<noteq> None)"
      by (auto simp: Cons_eq_append_conv)
    moreover from False have "isSliceOfDictsWithIds_range (item # rest) \<noteq> Inr True"
      by (simp add: isSliceOfDictsWithIds_range_Cons del: isSliceOfDictsWithIds_range.simps)
    ultimately show ?thesis by blast
  next
    case True
    then have n: "item \<noteq> nil" by auto
    show ?thesis
    proof (cases "specIdentifier item")
      case (Some s)
      then have "item # rest = [] @ item # rest \<and>
        (\<forall>y\<in>set []. typeOf y = Some TMap \<and> specIdentifier y = None) \<and>
        specIdentifier item \<noteq> None" by simp
      then have "\<exists>ys x zs. item # rest = ys @ x # zs \<and>
        (\<forall>y\<in>set ys. typeOf y = Some TMap \<and> specIdentifier y = None) \<and>
        specIdentifier x \<noteq> None" by blast
      moreover from True n Some have "isSliceOfDictsWithIds_range (item # rest) = Inr True"
        by (simp add: isSliceOfDictsWithIds_range_Cons del: isSliceOfDictsWithIds_range.simps)
      ultimately show ?thesis by blast
    next
      case None
      with True n have "isSliceOfDictsWithIds_range (item # rest) = isSliceOfDictsWithIds_range rest"
        by (simp add: isSliceOfDictsWithIds_range_Cons del: isSliceOfDictsWithIds_range.simps)
      moreover have "(\<exists>ys x zs. item # rest = ys @ x # zs \<and>
        (\<forall>y\<in>set ys. typeOf y = Some TMap \<and> specIdentifier y = None) \<and>
        specIdentifier x \<noteq> None) \<longleftrightarrow> (\<exists>ys x zs. rest = ys @ x # zs \<and>
        (\<forall>y\<in>set ys. typeOf y = Some TMap \<and> specIdentifier y = None) \<and>
        specIdentifier x \<noteq> None)" (is "?L \<longleftrightarrow> ?R")
      proof
        assume ?L
        then obtain ys x zs where eq: "item # rest = ys @ x # zs"
          and b: "\<forall>y\<in>set ys. typeOf y = Some TMap \<and> specIdentifier y = None"
          and x: "specIdentifier x \<noteq> None" by blast
        show ?R
        proof (cases ys)
          case Nil
          with eq x None show ?thesis by simp
        next
          case (Cons y ys')
          with eq have "rest = ys' @ x # zs" by simp
          moreover from Cons b
          have "\<forall>y\<in>set ys'. typeOf y = Some TMap \<and> specIdentifier y = None" by simp
          ultimately show ?thesis using x by blast
        qed
      next
        assume ?R
        then obtain ys x zs where eq: "rest = ys @ x # zs"
          and b: "\<forall>y\<in>set ys. typeOf y = Some TMap \<and> specIdentifier y = None"
          and x: "specIdentifier x \<noteq> None" by blast
        from eq have "item # rest = (item # ys) @ x # zs" by simp
        moreover from True None b
        have "\<forall>y\<in>set (item # ys). typeOf y = Some TMap \<and> specIdentifier y = None" by simp
        ultimately show ?L using x by blast
      qed
      ultimately show ?thesis using Cons.IH by simp
    qed
  qed
qed

lemma isSliceOfDictsWithIds_True_iff:
  "isSliceOfDictsWithIds xs = Inr True \<longleftrightarrow>
     (\<exists>ys x zs. xs = ys @ x # zs \<and>
        (\<forall>y\<in>set ys. typeOf y = Some TMap \<and> specIdentifier y = None) \<and>
        specIdentifier x \<noteq> None)"
  using isSliceOfDictsWithIds_range_True_iff [of xs]
  by (cases xs) (simp_all add: isSliceOfDictsWithIds_def)

lemma isSliceOfDictsWithIds_range_no_nil:
  "\<forall>x\<in>set xs. x \<noteq> nil \<Longrightarrow> \<exists>b. isSliceOfDictsWithIds_range xs = Inr b"
  by (induction xs) (auto simp: isSliceOfDictsWithIds_range_Cons simp del: isSliceOfDictsWithIds_range.simps(2))

lemma isSliceOfDictsWithIds_no_nil:
  "\<forall>x\<in>set xs. x \<noteq> nil \<Longrightarrow> \<exists>b. isSliceOfDictsWithIds xs = Inr b"
  using isSliceOfDictsWithIds_range_no_nil [of xs] by (auto simp: isSliceOfDictsWithIds_def)


subsection \<open>What normalizeValue guarantees\<close>

text \<open>
  On a value without nil elements the canonicalizer returns, and its result has no nil
  elements either. Wherever it returns twice in a row, the second result is the first.
\<close>

lemma normalizeValue_typeOf: "normalizeValue v = Inr w \<Longrightarrow> typeOf w = typeOf v"
  by (cases v) (auto split: sum.splits if_splits)

lemma mapE_exists:
  "(\<And>x. x \<in> set xs \<Longrightarrow> \<exists>y. f x = Inr y \<and> Q y) \<Longrightarrow> \<exists>ys. mapE f xs = Inr ys \<and> list_all Q ys"
proof (induction xs)
  case Nil
  then show ?case by simp
next
  case (Cons x xs)
  from Cons.prems obtain y where y: "f x = Inr y" "Q y" by auto
  from Cons.IH Cons.prems obtain ys where ys: "mapE f xs = Inr ys" "list_all Q ys" by auto
  from y ys show ?case by simp
qed

lemma normalizeValue_no_nil:
  "noNilElements v \<Longrightarrow> \<exists>w. normalizeValue v = Inr w \<and> noNilElements w"
proof (induction v rule: normalizeValue.induct)
  case (1 s)
  then show ?case by simp
next
  case (2 kvs)
  let ?g = "\<lambda>kv. case normalizeValue (snd kv) of Inl e \<Rightarrow> Inl e | Inr v \<Rightarrow> Inr (fst kv, v)"
  have "\<exists>y. ?g kv = Inr y \<and> noNilElements (snd y)"
    if "kv \<in> set (sortSlice (\<lambda>kv. sprintScalar (fst kv)) kvs)" for kv
  proof -
    from that have "kv \<in> set kvs" by (simp add: sortSlice_def)
    with "2.prems" have "noNilElements (snd kv)" by (simp add: list_all_iff)
    with "2.IH" [OF that] obtain w where "normalizeValue (snd kv) = Inr w" "noNilElements w"
      by blast
    then show ?thesis by simp
  qed
  then obtain n where "mapE ?g (sortSlice (\<lambda>kv. sprintScalar (fst kv)) kvs) = Inr n"
    and "list_all (\<lambda>y. noNilElements (snd y)) n"
    using mapE_exists [of "sortSlice (\<lambda>kv. sprintScalar (fst kv)) kvs" ?g "\<lambda>y. noNilElements (snd y)"]
    by blast
  then show ?case by simp
next
  case (3 xs)
  have "\<exists>w. normalizeValue x = Inr w \<and> (w \<noteq> nil \<and> noNilElements w)" if "x \<in> set xs" for x
  proof -
    from "3.prems" that have x: "x \<noteq> nil" "noNilElements x" by (simp_all add: list_all_iff)
    with "3.IH" [OF that] obtain w where w: "normalizeValue x = Inr w" "noNilElements w" by blast
    from w(1) have "typeOf w = typeOf x" by (rule normalizeValue_typeOf)
    with x(1) have "w \<noteq> nil" by (cases x rule: typeOf.cases) auto
    with w show ?thesis by blast
  qed
  then obtain es where es: "mapE normalizeValue xs = Inr es"
    and nn: "list_all (\<lambda>w. w \<noteq> nil \<and> noNilElements w) es"
    using mapE_exists [of xs normalizeValue "\<lambda>w. w \<noteq> nil \<and> noNilElements w"] by blast
  from nn have "\<forall>x\<in>set es. x \<noteq> nil" by (simp add: list_all_iff)
  then obtain b where "isSliceOfDictsWithIds es = Inr b"
    using isSliceOfDictsWithIds_no_nil by blast
  with es nn show ?case by (simp add: sortSlice_def list_all_iff)
next
  case (4 f)
  then show ?case by simp
qed

lemma list_all2_same_result:
  "list_all2 Q ys zs \<Longrightarrow> (\<And>y z. y \<in> set ys \<Longrightarrow> Q y z \<Longrightarrow> z = y) \<Longrightarrow> zs = ys"
  by (induction rule: list_all2_induct) auto

lemma list_all2_source:
  "list_all2 P xs ys \<Longrightarrow> y \<in> set ys \<Longrightarrow> \<exists>x\<in>set xs. P x y"
  by (induction rule: list_all2_induct) auto

lemma list_all2_map_eq:
  "list_all2 (\<lambda>x y. f y = h x) xs ys \<Longrightarrow> map f ys = map h xs"
  by (induction rule: list_all2_induct) auto

lemma sortSlice_sorted: "sorted (map key xs) \<Longrightarrow> sortSlice key xs = xs"
  by (simp add: sortSlice_def sort_key_id_if_sorted)

lemma sortSlice_idem: "sortSlice key (sortSlice key xs) = sortSlice key xs"
  by (simp add: sortSlice_def sort_key_id_if_sorted)

lemma normalizeValue_idempotent_where_defined:
  "normalizeValue v = Inr w \<Longrightarrow> normalizeValue w = Inr w' \<Longrightarrow> w' = w"
proof (induction v arbitrary: w w' rule: normalizeValue.induct)
  case (1 s)
  then show ?case by auto
next
  case (2 kvs)
  let ?key = "\<lambda>kv :: scalar \<times> val. sprintScalar (fst kv)"
  let ?g = "\<lambda>kv. case normalizeValue (snd kv) of Inl e \<Rightarrow> Inl e | Inr v \<Rightarrow> Inr (fst kv, v)"
  let ?s = "sortSlice ?key kvs"
  from "2.prems"(1) obtain n where n: "mapE ?g ?s = Inr n" and w: "w = Map n"
    by (auto split: sum.splits)
  from n have "list_all2 (\<lambda>kv nkv. ?g kv = Inr nkv) ?s n" by (simp add: mapE_Inr_iff)
  then have r: "list_all2 (\<lambda>kv nkv. fst nkv = fst kv \<and> normalizeValue (snd kv) = Inr (snd nkv)) ?s n"
    by (rule list_all2_mono) (auto split: sum.splits)
  then have "list_all2 (\<lambda>kv nkv. ?key nkv = ?key kv) ?s n"
    by (rule list_all2_mono) simp
  then have "map ?key n = map ?key ?s" by (rule list_all2_map_eq)
  then have "sorted (map ?key n)" by (simp add: sortSlice_def)
  then have sn: "sortSlice ?key n = n" by (rule sortSlice_sorted)
  from "2.prems"(2) w sn obtain n' where n': "mapE ?g n = Inr n'" and w': "w' = Map n'"
    by (auto split: sum.splits)
  from n' have q: "list_all2 (\<lambda>nkv nkv'. ?g nkv = Inr nkv') n n'" by (simp add: mapE_Inr_iff)
  have "nkv' = nkv" if mem: "nkv \<in> set n" and gn: "?g nkv = Inr nkv'" for nkv nkv'
  proof -
    obtain kv where kv: "kv \<in> set ?s"
      and a: "normalizeValue (snd kv) = Inr (snd nkv)"
      using list_all2_source [OF r mem] by blast
    from gn have b: "fst nkv' = fst nkv" "normalizeValue (snd nkv) = Inr (snd nkv')"
      by (auto split: sum.splits)
    from "2.IH" [OF kv a b(2)] b(1) show ?thesis by (simp add: prod_eq_iff)
  qed
  with q have "n' = n" by (rule list_all2_same_result)
  with w w' show ?case by simp
next
  case (3 xs)
  from "3.prems"(1) obtain es b where es: "mapE normalizeValue xs = Inr es"
    and b: "isSliceOfDictsWithIds es = Inr b"
    and w: "w = Slice (if \<not> b then sortSlice sprintv es else es)"
    by (auto split: sum.splits if_splits)
  let ?ws = "if \<not> b then sortSlice sprintv es else es"
  from es have r: "list_all2 (\<lambda>x e. normalizeValue x = Inr e) xs es" by (simp add: mapE_Inr_iff)
  have fixed: "e' = e" if mem: "e \<in> set ?ws" and ne: "normalizeValue e = Inr e'" for e e'
  proof -
    from mem have "e \<in> set es" by (simp add: sortSlice_def split: if_splits)
    then obtain x where "x \<in> set xs" and "normalizeValue x = Inr e"
      using list_all2_source [OF r] by blast
    with "3.IH" ne show ?thesis by blast
  qed
  from "3.prems"(2) w obtain es' b' where es': "mapE normalizeValue ?ws = Inr es'"
    and b': "isSliceOfDictsWithIds es' = Inr b'"
    and w': "w' = Slice (if \<not> b' then sortSlice sprintv es' else es')"
    by (auto split: sum.splits if_splits)
  from es' have "list_all2 (\<lambda>e e'. normalizeValue e = Inr e') ?ws es'" by (simp add: mapE_Inr_iff)
  then have same: "es' = ?ws" using fixed by (rule list_all2_same_result)
  show ?case
  proof (cases b)
    case True
    with same b b' have "b'" by simp
    with True same w w' show ?thesis by simp
  next
    case False
    with same w w' show ?thesis by (simp add: sortSlice_idem)
  qed
next
  case (4 f)
  then show ?case by auto
qed


lemma normalizeValue_idempotent_no_nil:
  assumes "noNilElements v"
  shows "\<exists>w. normalizeValue v = Inr w \<and> normalizeValue w = Inr w"
proof -
  from assms obtain w where w: "normalizeValue v = Inr w" "noNilElements w"
    using normalizeValue_no_nil by blast
  from w(2) obtain w' where w': "normalizeValue w = Inr w'"
    using normalizeValue_no_nil by blast
  with w(1) have "w' = w" by (rule normalizeValue_idempotent_where_defined)
  with w w' show ?thesis by simp
qed

section \<open>The canonicalizer\<close>

text \<open>
  C4. The canonicalizer is total: for every value, sequences with nil elements included,
  it returns a canonical value and never panics. The code panics on the one-element
  sequence that holds nil: \<^verbatim>\<open>isSliceOfDictsWithIds\<close> asks the nil Type of the nil
  element for its kind. (On values without nil elements it returns:
  \<open>normalizeValue_no_nil\<close>.)
\<close>

theorem normalizeValue_nil_element_panics:
  "normalizeValue (Slice [nil]) = Inl NilPointerDereference"
  by (simp add: isSliceOfDictsWithIds_def)

text \<open>
  C2. Canonicalization is idempotent. On the sequence of the string x and nil the code
  returns the sequence of nil and x (the elements sorted by their printed form), and
  panics when it is given that result: the nil element now comes first and is the one
  \<^verbatim>\<open>isSliceOfDictsWithIds\<close> inspects. (Wherever the second call returns, it returns
  its argument: \<open>normalizeValue_idempotent_where_defined\<close>.)
\<close>

theorem normalizeValue_twice_panics:
  "normalizeValue (Slice [Prim (SStr ''x''), nil]) = Inr (Slice [nil, Prim (SStr ''x'')]) \<and>
   normalizeValue (Slice [nil, Prim (SStr ''x'')]) = Inl NilPointerDereference"
  by (simp add: isSliceOfDictsWithIds_def sortSlice_def)

text \<open>
  C3. A sequence is an identifiable-record sequence if and only if it is not empty, all
  its elements are mappings and one of them has a key name, key or id. The code answers
  at the first mapping that has such a key and does not look at the elements after it
  (\<open>isSliceOfDictsWithIds_True_iff\<close>): a sequence of a named mapping followed by a
  string is accepted.
\<close>

theorem isSliceOfDictsWithIds_non_map_element:
  "isSliceOfDictsWithIds [Map [(SStr ''name'', Prim (SStr ''a''))], Prim (SStr ''x'')] = Inr True \<and>
   typeOf (Prim (SStr ''x'')) = Some TString"
  by (simp add: isSliceOfDictsWithIds_def)

section \<open>The tree differ\<close>

text \<open>
  C5. Two present values of different types (a mapping and a scalar, a string and a
  number, ...) give exactly one Modification, at the path of the two values and with the
  two whole values; nothing is reported below that path.
\<close>

theorem diffValues_type_change:
  assumes "typeOf oldVal = Some t1" and "typeOf newVal = Some t2" and "t1 \<noteq> t2"
  shows "diffValues oldVal newVal path =
           Inr [\<lparr>Type = Modification, Path = path, OldValue = oldVal, NewValue = newVal\<rparr>]"
proof -
  from assms have "\<not> deepEqual oldVal newVal"
    using deepEqual_typeOf [of oldVal newVal] by auto
  moreover from assms have "oldVal \<noteq> nil" and "newVal \<noteq> nil" by auto
  moreover from assms have "typeOf oldVal \<noteq> typeOf newVal" by simp
  ultimately show ?thesis
    by (subst diffValues.simps) simp
qed

theorem diffValues_type_change_witness:
  "typeOf (Map [(SStr ''a'', Prim (SInt 1))]) = Some TMap \<and>
   typeOf (Prim (SStr ''text'')) = Some TString \<and> TMap \<noteq> TString \<and>
   diffValues (Map [(SStr ''a'', Prim (SInt 1))]) (Prim (SStr ''text'')) ''.key'' =
     Inr [\<lparr>Type = Modification, Path = ''.key'',
           OldValue = Map [(SStr ''a'', Prim (SInt 1))], NewValue = Prim (SStr ''text'')\<rparr>]"
  using diffValues_type_change
    [of "Map [(SStr ''a'', Prim (SInt 1))]" TMap "Prim (SStr ''text'')" TString "''.key''"]
  by simp




text \<open>
  The positional branch of the differ, taken when \<^verbatim>\<open>isSliceOfDictsWithIds\<close> answers
  false for the old sequence, or true for the old and false for the new one: the differ
  compares the elements at each index below the shorter length, at the path followed by
  the index in brackets, and reports each element beyond it as one Deletion (old longer)
  or one Addition (new longer) at its index, with the element and without looking into
  it. The result is those reports in that order; the differ panics only where one of the
  comparisons does.
\<close>

lemma diffValues_positional_branch:
  assumes "isSliceOfDictsWithIds old = Inr False \<or>
           (isSliceOfDictsWithIds old = Inr True \<and> isSliceOfDictsWithIds new = Inr False)"
  shows "case diffValues (Slice old) (Slice new) path of
           Inr changes \<Rightarrow>
             (\<exists>subs. length subs = min (length old) (length new) \<and>
                (\<forall>i<min (length old) (length new).
                   diffValues (old ! i) (new ! i) (path @ ''['' @ itoa (int i) @ '']'') = Inr (subs ! i)) \<and>
                changes =
                  concat subs @
                  map (\<lambda>i. \<lparr>Type = Deletion, Path = path @ ''['' @ itoa (int i) @ '']'',
                             OldValue = old ! i, NewValue = nil\<rparr>) [length new ..< length old] @
                  map (\<lambda>i. \<lparr>Type = Addition, Path = path @ ''['' @ itoa (int i) @ '']'',
                             OldValue = nil, NewValue = new ! i\<rparr>) [length old ..< length new])
         | Inl e \<Rightarrow>
             (\<exists>i<min (length old) (length new).
                diffValues (old ! i) (new ! i) (path @ ''['' @ itoa (int i) @ '']'') = Inl e)"
proof (cases "deepEqual (Slice old) (Slice new)")
  case True
  then have l: "length old = length new" and e: "\<forall>i<length old. deepEqual (old ! i) (new ! i)"
    by (simp_all add: list_all2_conv_all_nth)
  have dv: "diffValues (Slice old) (Slice new) path = Inr []"
    using True by (rule diffValues_deepEqual)
  have "\<exists>subs. length subs = min (length old) (length new) \<and>
                (\<forall>i<min (length old) (length new).
                   diffValues (old ! i) (new ! i) (path @ ''['' @ itoa (int i) @ '']'') = Inr (subs ! i)) \<and>
                ([] :: Change list) =
                  concat subs @
                  map (\<lambda>i. \<lparr>Type = Deletion, Path = path @ ''['' @ itoa (int i) @ '']'',
                             OldValue = old ! i, NewValue = nil\<rparr>) [length new ..< length old] @
                  map (\<lambda>i. \<lparr>Type = Addition, Path = path @ ''['' @ itoa (int i) @ '']'',
                             OldValue = nil, NewValue = new ! i\<rparr>) [length old ..< length new]"
  proof (intro exI [of _ "replicate (length old) []"] conjI)
    show "length (replicate (length old) ([] :: Change list)) = min (length old) (length new)"
      using l by simp
    show "\<forall>i<min (length old) (length new).
      diffValues (old ! i) (new ! i) (path @ ''['' @ itoa (int i) @ '']'') =
        Inr (replicate (length old) [] ! i)"
      using l e by (simp add: diffValues_deepEqual)
    show "[] = concat (replicate (length old) ([] :: Change list)) @
                  map (\<lambda>i. \<lparr>Type = Deletion, Path = path @ ''['' @ itoa (int i) @ '']'',
                             OldValue = old ! i, NewValue = nil\<rparr>) [length new ..< length old] @
                  map (\<lambda>i. \<lparr>Type = Addition, Path = path @ ''['' @ itoa (int i) @ '']'',
                             OldValue = nil, NewValue = new ! i\<rparr>) [length old ..< length new]"
      using l by simp
  qed
  then show ?thesis
    by (simp only: dv sum.case)
next
  case False
  let ?f = "\<lambda>i. diffValues (old ! i) (new ! i) (path @ ''['' @ itoa (int i) @ '']'')"
  let ?m = "min (length old) (length new)"
  let ?dels = "map (\<lambda>i. \<lparr>Type = Deletion, Path = path @ ''['' @ itoa (int i) @ '']'',
                             OldValue = old ! i, NewValue = nil\<rparr>) [length new ..< length old]"
  let ?adds = "map (\<lambda>i. \<lparr>Type = Addition, Path = path @ ''['' @ itoa (int i) @ '']'',
                             OldValue = nil, NewValue = new ! i\<rparr>) [length old ..< length new]"
  from assms False have unfold: "diffValues (Slice old) (Slice new) path =
      (case mapE ?f [0 ..< ?m] of
         Inl e \<Rightarrow> Inl e
       | Inr subs \<Rightarrow> Inr (concat subs @ ?dels @ ?adds))"
    by (subst diffValues.simps) (auto split: sum.splits)
  show ?thesis
  proof (cases "mapE ?f [0 ..< ?m]")
    case (Inl e)
    then obtain i where "i \<in> set [0 ..< ?m]" and "?f i = Inl e"
      using mapE_Inl [of ?f "[0 ..< ?m]" e] by blast
    with Inl unfold show ?thesis by auto
  next
    case (Inr subs)
    then have "length subs = ?m" and "\<forall>i<?m. ?f i = Inr (subs ! i)"
      by (simp_all add: mapE_Inr_nth)
    with Inr unfold show ?thesis by auto
  qed
qed

lemma diffValues_positional_branch_example:
  "isSliceOfDictsWithIds [Prim (SInt 1), Prim (SInt 2), Prim (SInt 3)] = Inr False \<and>
   diffValues (Slice [Prim (SInt 1), Prim (SInt 2), Prim (SInt 3)])
              (Slice [Prim (SInt 1), Prim (SInt 5)]) ''.a'' =
     Inr [\<lparr>Type = Modification, Path = ''.a[1]'', OldValue = Prim (SInt 2), NewValue = Prim (SInt 5)\<rparr>,
          \<lparr>Type = Deletion, Path = ''.a[2]'', OldValue = Prim (SInt 3), NewValue = nil\<rparr>] \<and>
   (\<exists>subs. length subs = min (length [Prim (SInt 1), Prim (SInt 2), Prim (SInt 3)])
                               (length [Prim (SInt 1), Prim (SInt 5)]) \<and>
      [\<lparr>Type = Modification, Path = ''.a[1]'', OldValue = Prim (SInt 2), NewValue = Prim (SInt 5)\<rparr>,
       \<lparr>Type = Deletion, Path = ''.a[2]'', OldValue = Prim (SInt 3), NewValue = nil\<rparr>] =
      concat subs @
      [\<lparr>Type = Deletion, Path = ''.a['' @ itoa (int 2) @ '']'', OldValue = Prim (SInt 3), NewValue = nil\<rparr>])"
proof -
  let ?old = "[Prim (SInt 1), Prim (SInt 2), Prim (SInt 3)]"
  let ?new = "[Prim (SInt 1), Prim (SInt 5)]"
  have h: "isSliceOfDictsWithIds ?old = Inr False"
    by (simp add: isSliceOfDictsWithIds_def)
  have ev: "diffValues (Slice ?old) (Slice ?new) ''.a'' =
     Inr [\<lparr>Type = Modification, Path = ''.a[1]'', OldValue = Prim (SInt 2), NewValue = Prim (SInt 5)\<rparr>,
          \<lparr>Type = Deletion, Path = ''.a[2]'', OldValue = Prim (SInt 3), NewValue = nil\<rparr>]"
    by code_simp
  have u: "[length ?new ..< length ?old] = [2]" and v: "[length ?old ..< length ?new] = []"
    by (simp_all add: upt_rec)
  from diffValues_positional_branch [of ?old ?new "''.a''"] h
  obtain subs where "length subs = min (length ?old) (length ?new)"
    and "[\<lparr>Type = Modification, Path = ''.a[1]'', OldValue = Prim (SInt 2), NewValue = Prim (SInt 5)\<rparr>,
          \<lparr>Type = Deletion, Path = ''.a[2]'', OldValue = Prim (SInt 3), NewValue = nil\<rparr>] =
         concat subs @
         [\<lparr>Type = Deletion, Path = ''.a['' @ itoa (int 2) @ '']'', OldValue = Prim (SInt 3), NewValue = nil\<rparr>]"
    unfolding ev u v sum.case by auto
  with h ev show ?thesis by blast
qed

text \<open>
  C7. Two sequences that are not both identifiable-record sequences are compared by
  position: the differ compares the elements at each index below the shorter length and
  reports the elements beyond it. The code takes the positional branch on the answer of
  \<^verbatim>\<open>isSliceOfDictsWithIds\<close>, which is not the definition of the specification: two
  sequences of a named mapping followed by a string are not identifiable-record sequences
  (the string is no mapping), yet the code matches them by identifier and reports
  nothing, where the comparison at index 1 gives a Modification; and on two sequences
  that begin with nil the code panics in \<^verbatim>\<open>isSliceOfDictsWithIds\<close>.
\<close>

theorem diffValues_not_positional:
  "\<not> specRecordSequence [Map [(SStr ''name'', Prim (SStr ''a''))], Prim (SStr ''x'')] \<and>
   \<not> specRecordSequence [Map [(SStr ''name'', Prim (SStr ''a''))], Prim (SStr ''y'')] \<and>
   diffValues (Slice [Map [(SStr ''name'', Prim (SStr ''a''))], Prim (SStr ''x'')])
              (Slice [Map [(SStr ''name'', Prim (SStr ''a''))], Prim (SStr ''y'')]) ''.items'' = Inr [] \<and>
   diffValues (Prim (SStr ''x'')) (Prim (SStr ''y'')) ''.items[1]'' =
     Inr [\<lparr>Type = Modification, Path = ''.items[1]'',
           OldValue = Prim (SStr ''x''), NewValue = Prim (SStr ''y'')\<rparr>] \<and>
   \<not> specRecordSequence [nil, Prim (SStr ''x'')] \<and>
   diffValues (Slice [nil, Prim (SStr ''x'')]) (Slice [nil, Prim (SStr ''y'')]) ''.items'' =
     Inl NilPointerDereference"
  by code_simp

section \<open>The renderer\<close>

text \<open>
  C9. The renderer leaves the collection it is given unchanged; in particular it does not
  reorder it in place. The code sorts the caller's slice where it is: a collection whose
  paths are not in order is another list after the call.
\<close>

theorem generateColoredDiff_reorders:
  "fst (generateColoredDiff noColor noEncoder
     [\<lparr>Type = Addition, Path = ''.zebra'', OldValue = nil, NewValue = Prim (SStr ''animal'')\<rparr>,
      \<lparr>Type = Deletion, Path = ''.apple'', OldValue = Prim (SStr ''fruit''), NewValue = nil\<rparr>])
   \<noteq> [\<lparr>Type = Addition, Path = ''.zebra'', OldValue = nil, NewValue = Prim (SStr ''animal'')\<rparr>,
      \<lparr>Type = Deletion, Path = ''.apple'', OldValue = Prim (SStr ''fruit''), NewValue = nil\<rparr>]"
  by (simp add: generateColoredDiff_def sortSlice_def)

text \<open>
  C9, as amended. The renderer sorts the collection it is given in place by path: after
  the call the collection holds the same changes, in ascending order of their paths.
\<close>

theorem generateColoredDiff_sorts_in_place:
  "mset (fst (generateColoredDiff colors encode changes)) = mset changes \<and>
   sorted (map Path (fst (generateColoredDiff colors encode changes)))"
  by (simp add: generateColoredDiff_def sortSlice_def)

section \<open>The record matcher\<close>

text \<open>
  C1. The record matcher, on two sequences at a path. The lookup map of a sequence holds,
  under each identifier (the printed form of the value of the first of the keys name,
  key, id of an element), the last element of the sequence with that identifier, once.
  The result is made of one part for each identifier of the old map, followed by one
  Addition for each identifier that only the new map has: when the new map lacks the
  identifier, the part is one Deletion at the path followed by the identifier in
  brackets, with the old element; when it has it, the part is the diff of the two whole
  elements at that path. The call panics only where one of those diffs does.
\<close>

theorem diffSliceOfDicts_by_identifier:
  fixes old new :: "val list" and path :: string
  defines "oldMap \<equiv> groupByIdentifier old []" and "newMap \<equiv> groupByIdentifier new []"
  shows "(\<forall>s. map_of oldMap s = lastRecord old s) \<and> (\<forall>s. map_of newMap s = lastRecord new s) \<and>
         distinct (map fst oldMap) \<and> distinct (map fst newMap) \<and>
         (case diffSliceOfDicts old new path of
            Inr changes \<Rightarrow>
              (\<exists>subs. length subs = length oldMap \<and>
                 (\<forall>i<length oldMap.
                    case lastRecord new (fst (oldMap ! i)) of
                      None \<Rightarrow>
                        subs ! i = [\<lparr>Type = Deletion, Path = path @ ''['' @ fst (oldMap ! i) @ '']'',
                                     OldValue = snd (oldMap ! i), NewValue = nil\<rparr>]
                    | Some newItem \<Rightarrow>
                        diffValues (snd (oldMap ! i)) newItem (path @ ''['' @ fst (oldMap ! i) @ '']'') =
                          Inr (subs ! i)) \<and>
                 changes =
                   concat subs @
                   map (\<lambda>kv. \<lparr>Type = Addition, Path = path @ ''['' @ fst kv @ '']'',
                              OldValue = nil, NewValue = snd kv\<rparr>)
                     (filter (\<lambda>kv. lastRecord old (fst kv) = None) newMap))
          | Inl e \<Rightarrow>
              (\<exists>kv\<in>set oldMap. \<exists>newItem.
                 lastRecord new (fst kv) = Some newItem \<and>
                 diffValues (snd kv) newItem (path @ ''['' @ fst kv @ '']'') = Inl e))"
proof (intro conjI)
  show "\<forall>s. map_of oldMap s = lastRecord old s" and "\<forall>s. map_of newMap s = lastRecord new s"
    by (simp_all add: oldMap_def newMap_def groupByIdentifier_lookup)
  show "distinct (map fst oldMap)" and "distinct (map fst newMap)"
    by (simp_all add: oldMap_def newMap_def groupByIdentifier_distinct)
next
  let ?f = "\<lambda>kv. case lastRecord new (fst kv) of
               Some newItem \<Rightarrow> diffValues (snd kv) newItem (path @ ''['' @ fst kv @ '']'')
             | None \<Rightarrow>
                 Inr [\<lparr>Type = Deletion, Path = path @ ''['' @ fst kv @ '']'',
                       OldValue = snd kv, NewValue = nil\<rparr>]"
  let ?adds = "map (\<lambda>kv. \<lparr>Type = Addition, Path = path @ ''['' @ fst kv @ '']'',
                              OldValue = nil, NewValue = snd kv\<rparr>)
                     (filter (\<lambda>kv. lastRecord old (fst kv) = None) newMap)"
  have unfold: "diffSliceOfDicts old new path =
      (case mapE ?f oldMap of Inl e \<Rightarrow> Inl e | Inr subs \<Rightarrow> Inr (concat subs @ ?adds))"
    by (simp only: diffSliceOfDicts.simps groupByIdentifier_lookup oldMap_def newMap_def)
  show "case diffSliceOfDicts old new path of
            Inr changes \<Rightarrow>
              (\<exists>subs. length subs = length oldMap \<and>
                 (\<forall>i<length oldMap.
                    case lastRecord new (fst (oldMap ! i)) of
                      None \<Rightarrow>
                        subs ! i = [\<lparr>Type = Deletion, Path = path @ ''['' @ fst (oldMap ! i) @ '']'',
                                     OldValue = snd (oldMap ! i), NewValue = nil\<rparr>]
                    | Some newItem \<Rightarrow>
                        diffValues (snd (oldMap ! i)) newItem (path @ ''['' @ fst (oldMap ! i) @ '']'') =
                          Inr (subs ! i)) \<and>
                 changes = concat subs @ ?adds)
          | Inl e \<Rightarrow>
              (\<exists>kv\<in>set oldMap. \<exists>newItem.
                 lastRecord new (fst kv) = Some newItem \<and>
                 diffValues (snd kv) newItem (path @ ''['' @ fst kv @ '']'') = Inl e)"
  proof (cases "mapE ?f oldMap")
    case (Inl e)
    then obtain kv where kv: "kv \<in> set oldMap" and "?f kv = Inl e"
      using mapE_Inl [of ?f oldMap e] by blast
    then have "\<exists>newItem. lastRecord new (fst kv) = Some newItem \<and>
                 diffValues (snd kv) newItem (path @ ''['' @ fst kv @ '']'') = Inl e"
      by (cases "lastRecord new (fst kv)") simp_all
    with kv have "\<exists>kv\<in>set oldMap. \<exists>newItem.
                 lastRecord new (fst kv) = Some newItem \<and>
                 diffValues (snd kv) newItem (path @ ''['' @ fst kv @ '']'') = Inl e"
      by blast
    with Inl show ?thesis by (simp only: unfold sum.case)
  next
    case (Inr subs)
    then have len: "length subs = length oldMap" and nth: "\<forall>i<length oldMap. ?f (oldMap ! i) = Inr (subs ! i)"
      by (simp_all add: mapE_Inr_nth)
    have "case lastRecord new (fst (oldMap ! i)) of
                      None \<Rightarrow>
                        subs ! i = [\<lparr>Type = Deletion, Path = path @ ''['' @ fst (oldMap ! i) @ '']'',
                                     OldValue = snd (oldMap ! i), NewValue = nil\<rparr>]
                    | Some newItem \<Rightarrow>
                        diffValues (snd (oldMap ! i)) newItem (path @ ''['' @ fst (oldMap ! i) @ '']'') =
                          Inr (subs ! i)"
      if "i < length oldMap" for i
      using nth that by (cases "lastRecord new (fst (oldMap ! i))") auto
    with len have "\<exists>subs'. length subs' = length oldMap \<and>
                 (\<forall>i<length oldMap.
                    case lastRecord new (fst (oldMap ! i)) of
                      None \<Rightarrow>
                        subs' ! i = [\<lparr>Type = Deletion, Path = path @ ''['' @ fst (oldMap ! i) @ '']'',
                                     OldValue = snd (oldMap ! i), NewValue = nil\<rparr>]
                    | Some newItem \<Rightarrow>
                        diffValues (snd (oldMap ! i)) newItem (path @ ''['' @ fst (oldMap ! i) @ '']'') =
                          Inr (subs' ! i)) \<and>
                 concat subs @ ?adds = concat subs' @ ?adds"
      by blast
    with Inr show ?thesis by (simp only: unfold sum.case)
  qed
qed

theorem diffSliceOfDicts_by_identifier_witness:
  "diffSliceOfDicts
     [Map [(SStr ''name'', Prim (SStr ''a'')), (SStr ''v'', Prim (SInt 1))],
      Map [(SStr ''key'', Prim (SStr ''b''))]]
     [Map [(SStr ''name'', Prim (SStr ''a'')), (SStr ''v'', Prim (SInt 2))],
      Map [(SStr ''id'', Prim (SInt 7))]]
     ''.items'' =
     Inr [\<lparr>Type = Modification, Path = ''.items[a].v'', OldValue = Prim (SInt 1), NewValue = Prim (SInt 2)\<rparr>,
          \<lparr>Type = Deletion, Path = ''.items[b]'',
           OldValue = Map [(SStr ''key'', Prim (SStr ''b''))], NewValue = nil\<rparr>,
          \<lparr>Type = Addition, Path = ''.items[7]'', OldValue = nil,
           NewValue = Map [(SStr ''id'', Prim (SInt 7))]\<rparr>] \<and>
   (\<exists>subs. length subs = 2 \<and>
      [\<lparr>Type = Modification, Path = ''.items[a].v'', OldValue = Prim (SInt 1), NewValue = Prim (SInt 2)\<rparr>,
       \<lparr>Type = Deletion, Path = ''.items[b]'',
        OldValue = Map [(SStr ''key'', Prim (SStr ''b''))], NewValue = nil\<rparr>,
       \<lparr>Type = Addition, Path = ''.items[7]'', OldValue = nil,
        NewValue = Map [(SStr ''id'', Prim (SInt 7))]\<rparr>] =
      concat subs @
      [\<lparr>Type = Addition, Path = ''.items[7]'', OldValue = nil,
        NewValue = Map [(SStr ''id'', Prim (SInt 7))]\<rparr>])"
proof -
  let ?old = "[Map [(SStr ''name'', Prim (SStr ''a'')), (SStr ''v'', Prim (SInt 1))],
               Map [(SStr ''key'', Prim (SStr ''b''))]]"
  let ?new = "[Map [(SStr ''name'', Prim (SStr ''a'')), (SStr ''v'', Prim (SInt 2))],
               Map [(SStr ''id'', Prim (SInt 7))]]"
  have ev: "diffSliceOfDicts ?old ?new ''.items'' =
     Inr [\<lparr>Type = Modification, Path = ''.items[a].v'', OldValue = Prim (SInt 1), NewValue = Prim (SInt 2)\<rparr>,
          \<lparr>Type = Deletion, Path = ''.items[b]'',
           OldValue = Map [(SStr ''key'', Prim (SStr ''b''))], NewValue = nil\<rparr>,
          \<lparr>Type = Addition, Path = ''.items[7]'', OldValue = nil,
           NewValue = Map [(SStr ''id'', Prim (SInt 7))]\<rparr>]"
    by code_simp
  have len: "length (groupByIdentifier ?old []) = 2"
    by code_simp
  have adds: "map (\<lambda>kv. \<lparr>Type = Addition, Path = ''.items'' @ ''['' @ fst kv @ '']'',
                              OldValue = nil, NewValue = snd kv\<rparr>)
                (filter (\<lambda>kv. lastRecord ?old (fst kv) = None) (groupByIdentifier ?new [])) =
              [\<lparr>Type = Addition, Path = ''.items[7]'', OldValue = nil,
                NewValue = Map [(SStr ''id'', Prim (SInt 7))]\<rparr>]"
    by code_simp
  from diffSliceOfDicts_by_identifier [of ?old ?new "''.items''"]
  obtain subs where "length subs = 2"
    and "[\<lparr>Type = Modification, Path = ''.items[a].v'', OldValue = Prim (SInt 1), NewValue = Prim (SInt 2)\<rparr>,
       \<lparr>Type = Deletion, Path = ''.items[b]'',
        OldValue = Map [(SStr ''key'', Prim (SStr ''b''))], NewValue = nil\<rparr>,
       \<lparr>Type = Addition, Path = ''.items[7]'', OldValue = nil,
        NewValue = Map [(SStr ''id'', Prim (SInt 7))]\<rparr>] =
      concat subs @
      [\<lparr>Type = Addition, Path = ''.items[7]'', OldValue = nil,
        NewValue = Map [(SStr ''id'', Prim (SInt 7))]\<rparr>]"
    unfolding ev len adds sum.case by blast
  with ev show ?thesis by blast
qed

text \<open>
  C8. When two elements of a sequence have the same identifier, the later one takes the
  place of the earlier one in the lookup map: the map holds, under an identifier, the
  last element that has it. The loop that builds the map cannot fail.
\<close>

theorem groupByIdentifier_collision:
  assumes "specIdentifier a = Some s" and "specIdentifier b = Some s"
    and "\<forall>x\<in>set zs. specIdentifier x \<noteq> Some s"
  shows "map_of (groupByIdentifier (xs @ a # ys @ b # zs) []) s = Some b"
proof -
  from assms(3) have "find (\<lambda>x. specIdentifier x = Some s) (rev zs) = None"
    by (simp add: find_None_iff)
  with assms(2) have "lastRecord (xs @ a # ys @ b # zs) s = Some b"
    by (simp add: lastRecord_def find_append find_snoc)
  then show ?thesis by (simp add: groupByIdentifier_lookup)
qed



theorem groupByIdentifier_collision_witness:
  "specIdentifier (Map [(SStr ''id'', Prim (SInt 1)), (SStr ''v'', Prim (SStr ''old''))]) = Some ''1'' \<and>
   specIdentifier (Map [(SStr ''name'', Prim (SStr ''1'')), (SStr ''v'', Prim (SStr ''new''))]) = Some ''1'' \<and>
   specIdentifier (Map [(SStr ''key'', Prim (SStr ''k''))]) = Some ''k'' \<and>
   map_of (groupByIdentifier
       ([] @ Map [(SStr ''id'', Prim (SInt 1)), (SStr ''v'', Prim (SStr ''old''))] #
        [Prim (SBool True)] @ Map [(SStr ''name'', Prim (SStr ''1'')), (SStr ''v'', Prim (SStr ''new''))] #
        [Map [(SStr ''key'', Prim (SStr ''k''))]]) []) ''1'' =
     Some (Map [(SStr ''name'', Prim (SStr ''1'')), (SStr ''v'', Prim (SStr ''new''))])"
proof -
  have a: "specIdentifier (Map [(SStr ''id'', Prim (SInt 1)), (SStr ''v'', Prim (SStr ''old''))]) = Some ''1''"
    by code_simp
  have b: "specIdentifier (Map [(SStr ''name'', Prim (SStr ''1'')), (SStr ''v'', Prim (SStr ''new''))]) = Some ''1''"
    by (simp add: specIdentifier_def)
  have c: "specIdentifier (Map [(SStr ''key'', Prim (SStr ''k''))]) = Some ''k''"
    by (simp add: specIdentifier_def)
  from c have z: "\<forall>x\<in>set [Map [(SStr ''key'', Prim (SStr ''k''))]]. specIdentifier x \<noteq> Some ''1''"
    by simp
  from groupByIdentifier_collision [OF a b z, of "[]" "[Prim (SBool True)]"] a b c
  show ?thesis by blast
qed

text \<open>
  C10. In a pair of sequences of dictionaries with identifiers, an element with none of
  the keys name, key, id never enters a lookup map and never contributes to a change: the
  lookup maps and the result of the record matcher are those of the sequences without
  such elements, and two sequences (of Go values that hold no NaN) that differ only in
  such elements give no change.
\<close>

theorem unidentified_elements_ignored:
  assumes "isSliceOfDictsWithIds old = Inr True" and "isSliceOfDictsWithIds new = Inr True"
  shows "groupByIdentifier old [] = groupByIdentifier (filter (\<lambda>x. specIdentifier x \<noteq> None) old) [] \<and>
         groupByIdentifier new [] = groupByIdentifier (filter (\<lambda>x. specIdentifier x \<noteq> None) new) [] \<and>
         diffSliceOfDicts old new path =
           diffSliceOfDicts (filter (\<lambda>x. specIdentifier x \<noteq> None) old)
             (filter (\<lambda>x. specIdentifier x \<noteq> None) new) path \<and>
         (list_all wf_val old \<and> list_all noNaN old \<and>
          filter (\<lambda>x. specIdentifier x \<noteq> None) old = filter (\<lambda>x. specIdentifier x \<noteq> None) new
          \<longrightarrow> diffValues (Slice old) (Slice new) path = Inr [])"
proof (intro conjI impI)
  show "groupByIdentifier old [] = groupByIdentifier (filter (\<lambda>x. specIdentifier x \<noteq> None) old) []"
    by (rule groupByIdentifier_filter)
  show "groupByIdentifier new [] = groupByIdentifier (filter (\<lambda>x. specIdentifier x \<noteq> None) new) []"
    by (rule groupByIdentifier_filter)
  show "diffSliceOfDicts old new path =
           diffSliceOfDicts (filter (\<lambda>x. specIdentifier x \<noteq> None) old)
             (filter (\<lambda>x. specIdentifier x \<noteq> None) new) path"
    by (rule diffSliceOfDicts_filter)
next
  let ?ids = "filter (\<lambda>x. specIdentifier x \<noteq> None) old"
  assume a: "list_all wf_val old \<and> list_all noNaN old \<and>
    filter (\<lambda>x. specIdentifier x \<noteq> None) old = filter (\<lambda>x. specIdentifier x \<noteq> None) new"
  then have "list_all wf_val old" and "list_all noNaN old" by simp_all
  then have "list_all wf_val ?ids" and "list_all noNaN ?ids" by (simp_all add: list_all_iff)
  then have "diffSliceOfDicts ?ids ?ids path = Inr []" by (rule diffSliceOfDicts_same)
  with a have d: "diffSliceOfDicts old new path = Inr []"
    using diffSliceOfDicts_filter [of old new path] by simp
  show "diffValues (Slice old) (Slice new) path = Inr []"
  proof (cases "deepEqual (Slice old) (Slice new)")
    case True
    then show ?thesis by (rule diffValues_deepEqual)
  next
    case False
    with assms d show ?thesis
      by (subst diffValues.simps) simp
  qed
qed


theorem unidentified_elements_ignored_witness:
  "isSliceOfDictsWithIds
     [Map [(SStr ''name'', Prim (SStr ''a'')), (SStr ''v'', Prim (SInt 1))],
      Map [(SStr ''w'', Prim (SInt 1))]] = Inr True \<and>
   isSliceOfDictsWithIds
     [Map [(SStr ''name'', Prim (SStr ''a'')), (SStr ''v'', Prim (SInt 1))],
      Map [(SStr ''w'', Prim (SInt 2))], Map [(SStr ''z'', Prim (SInt 3))]] = Inr True \<and>
   diffValues
     (Slice [Map [(SStr ''name'', Prim (SStr ''a'')), (SStr ''v'', Prim (SInt 1))],
             Map [(SStr ''w'', Prim (SInt 1))]])
     (Slice [Map [(SStr ''name'', Prim (SStr ''a'')), (SStr ''v'', Prim (SInt 1))],
             Map [(SStr ''w'', Prim (SInt 2))], Map [(SStr ''z'', Prim (SInt 3))]])
     ''.items'' = Inr []"
proof -
  let ?old = "[Map [(SStr ''name'', Prim (SStr ''a'')), (SStr ''v'', Prim (SInt 1))],
               Map [(SStr ''w'', Prim (SInt 1))]]"
  let ?new = "[Map [(SStr ''name'', Prim (SStr ''a'')), (SStr ''v'', Prim (SInt 1))],
               Map [(SStr ''w'', Prim (SInt 2))], Map [(SStr ''z'', Prim (SInt 3))]]"
  have h1: "isSliceOfDictsWithIds ?old = Inr True" and h2: "isSliceOfDictsWithIds ?new = Inr True"
    by (simp_all add: isSliceOfDictsWithIds_def)
  have h3: "list_all wf_val ?old \<and> list_all noNaN ?old" by simp
  have h4: "filter (\<lambda>x. specIdentifier x \<noteq> None) ?old = filter (\<lambda>x. specIdentifier x \<noteq> None) ?new"
    by (simp add: specIdentifier_def)
  from unidentified_elements_ignored [OF h1 h2, of "''.items''"] h3 h4
  have "diffValues (Slice ?old) (Slice ?new) ''.items'' = Inr []" by blast
  with h1 h2 show ?thesis by blast
qed

end
